theory Spec2Isabelle
  imports Complex_Main "HOL-Library.Stream"
begin

section \<open>UWB trilateration: solver, anchor selection, noise injection, Monte-Carlo harness\<close>

text \<open>
  The repository is a set of Python scripts (directory \<open>UWB_GUI\<close>). Python floats are
  modelled as the real numbers: every statement below is about exact arithmetic, and
  rounding, overflow and the IEEE special values are outside the model. Python exceptions
  are values of the type \<open>error\<close>; a function that may raise returns \<open>error + 'a\<close>.
\<close>

subsection \<open>Points and the Euclidean norm\<close>

type_synonym point = "real \<times> real"

text \<open>\<open>a - b\<close> on two numpy arrays of shape (2,).\<close>

definition sub :: "point \<Rightarrow> point \<Rightarrow> point" where
  "sub a b = (fst a - fst b, snd a - snd b)"

text \<open>\<open>np.linalg.norm\<close> of an array of shape (2,).\<close>

definition norm2 :: "point \<Rightarrow> real" where
  "norm2 v = sqrt ((fst v)\<^sup>2 + (snd v)\<^sup>2)"

subsection \<open>The solver\<close>

text \<open>
  \<open>trilateration\<close> (UWB_error_test_boxplot.py, UWB_error_test_line.py, UWB_errors_on_map.py)
  and \<open>trilateration_3anchors\<close> (uwb3anchorstest.py, auto_distances.py) have the same body.
  Its only \<open>raise\<close> is \<open>ValueError("Anchors are aligned")\<close>.
\<close>

datatype error = ValueError | IndexError

definition trilateration :: "point \<Rightarrow> real \<Rightarrow> point \<Rightarrow> real \<Rightarrow> point \<Rightarrow> real \<Rightarrow> error + point" where
  "trilateration p1 d1 p2 d2 p3 d3 =
     (let (x1, y1) = p1;
          (x2, y2) = p2;
          (x3, y3) = p3;
          A = 2 * (x2 - x1);
          B = 2 * (y2 - y1);
          C = d1\<^sup>2 - d2\<^sup>2 - x1\<^sup>2 + x2\<^sup>2 - y1\<^sup>2 + y2\<^sup>2;
          D = 2 * (x3 - x1);
          E = 2 * (y3 - y1);
          F = d1\<^sup>2 - d3\<^sup>2 - x1\<^sup>2 + x3\<^sup>2 - y1\<^sup>2 + y3\<^sup>2;
          denominator = A * E - B * D
      in if denominator = 0 then Inl ValueError
         else Inr ((C * E - B * F) / denominator, (A * F - C * D) / denominator))"

definition trilateration_3anchors :: "point \<Rightarrow> real \<Rightarrow> point \<Rightarrow> real \<Rightarrow> point \<Rightarrow> real \<Rightarrow> error + point" where
  "trilateration_3anchors = trilateration"

text \<open>
  Three points are collinear when the cross product of \<open>p2 - p1\<close> and \<open>p3 - p1\<close> vanishes.
  \<open>on_common_line\<close> is the geometric reading: some line \<open>a x + b y = c\<close> holds all three.
\<close>

definition collinear3 :: "point \<Rightarrow> point \<Rightarrow> point \<Rightarrow> bool" where
  "collinear3 p1 p2 p3 \<longleftrightarrow>
     (fst p2 - fst p1) * (snd p3 - snd p1) = (snd p2 - snd p1) * (fst p3 - fst p1)"


text \<open>The module-level constants of the three experiment scripts.\<close>

definition anchors0 :: "point \<times> point \<times> point" where
  "anchors0 = ((-4.5, 0), (-1.5, -3), (1.5, 0))"

definition true_pos0 :: point where
  "true_pos0 = (0, 2)"

text \<open>
  \<open>true_distances = [np.linalg.norm(true_pos - a) for a in anchors]\<close>. The list
  \<open>anchors\<close> is a literal of three points in every script; it is passed as a triple.
\<close>

definition true_distances :: "point \<times> point \<times> point \<Rightarrow> point \<Rightarrow> real list" where
  "true_distances anchs tpos =
     (case anchs of (a1, a2, a3) \<Rightarrow> map (\<lambda>a. norm2 (sub tpos a)) [a1, a2, a3])"

subsection \<open>Anchor selection\<close>

text \<open>
  Closest three overall (\<open>update_position\<close>, uwb3anchorstest.py):
  \<open>d_index = sorted(range(len(distances)), key=lambda i: distances[i])[:3]\<close>.
  Python's \<open>sorted\<close> is stable, as \<open>sort_key\<close> (insertion sort) is.
\<close>

definition d_index :: "real list \<Rightarrow> nat list" where
  "d_index distances = take 3 (sort_key (\<lambda>i. distances ! i) [0..<length distances])"

text \<open>
  Range-gated selection (\<open>update_circles\<close>, UWB_movable_position_GUI.py and auto_sinus.py),
  from the distance list of step 1 on:
  \<open>within_10m = [(i, d) for i, d in enumerate(distances) if d <= 10]\<close>,
  \<open>closest_valid = sorted(within_10m, key=lambda x: x[1])[:3]\<close>, \<open>count = len(closest_valid)\<close>
  and the colour chosen from the count. The source fixes the range to the literal 10;
  \<open>within_range\<close> and \<open>closest_in_range\<close> take it as the parameter \<open>R\<close>. The colour for a
  count of three is \<open>green\<close> in UWB_movable_position_GUI.py (modelled here) and \<open>purple\<close> in
  auto_sinus.py; the other tiers agree.
\<close>

definition within_range :: "real \<Rightarrow> real list \<Rightarrow> (nat \<times> real) list" where
  "within_range R distances = filter (\<lambda>(i, d). d \<le> R) (enumerate 0 distances)"

definition closest_in_range :: "real \<Rightarrow> real list \<Rightarrow> (nat \<times> real) list" where
  "closest_in_range R distances = take 3 (sort_key snd (within_range R distances))"

definition within_10m :: "real list \<Rightarrow> (nat \<times> real) list" where
  "within_10m distances = within_range 10 distances"

definition closest_valid :: "real list \<Rightarrow> (nat \<times> real) list" where
  "closest_valid distances = take 3 (sort_key snd (within_10m distances))"

definition circle_color :: "nat \<Rightarrow> string option" where
  "circle_color cnt =
     (if cnt = 3 then Some ''green''
      else if cnt = 2 then Some ''yellow''
      else if cnt = 1 then Some ''red''
      else None)"

definition update_circles :: "real list \<Rightarrow> (nat \<times> real) list \<times> nat \<times> string option" where
  "update_circles distances =
     (let cv = closest_valid distances;
          cnt = length cv
      in (cv, cnt, circle_color cnt))"

text \<open>Order by key, ties by index: what a stable sort of an index-ordered list yields.\<close>

definition lex_before :: "('a \<Rightarrow> real) \<Rightarrow> ('a \<Rightarrow> nat) \<Rightarrow> 'a \<Rightarrow> 'a \<Rightarrow> bool" where
  "lex_before f g a b \<longleftrightarrow> f a < f b \<or> (f a = f b \<and> g a < g b)"

subsection \<open>The random source\<close>

text \<open>
  The scripts draw from Python's module \<open>random\<close>. Its generator is modelled as an explicit
  source threaded through every call: a stream of raw integers feeding \<open>_randbelow\<close> and a
  stream of the values of \<open>random.random()\<close>, which lie in \<open>[0, 1)\<close> (\<open>unit_source\<close>).
  The functions follow the standard library: \<open>uniform(a, b) = a + (b - a) * random()\<close>,
  \<open>choice(seq) = seq[_randbelow(len(seq))]\<close>, and \<open>sample(population, k)\<close> in its pool
  variant (\<open>j = _randbelow(n - i); result[i] = pool[j]; pool[j] = pool[n - i - 1]\<close>), the one
  taken for a population of three.
\<close>

record rng =
  int_draws :: "nat stream"
  unit_draws :: "real stream"

definition py_random :: "rng \<Rightarrow> real \<times> rng" where
  "py_random g = (shd (unit_draws g), g\<lparr>unit_draws := stl (unit_draws g)\<rparr>)"

definition randbelow :: "nat \<Rightarrow> rng \<Rightarrow> nat \<times> rng" where
  "randbelow n g = (shd (int_draws g) mod n, g\<lparr>int_draws := stl (int_draws g)\<rparr>)"

definition py_uniform :: "real \<Rightarrow> real \<Rightarrow> rng \<Rightarrow> real \<times> rng" where
  "py_uniform a b g = (case py_random g of (u, g') \<Rightarrow> (a + (b - a) * u, g'))"

definition py_choice :: "'a list \<Rightarrow> rng \<Rightarrow> 'a \<times> rng" where
  "py_choice seq g = (case randbelow (length seq) g of (j, g') \<Rightarrow> (seq ! j, g'))"

fun sample_loop :: "'a list \<Rightarrow> nat \<Rightarrow> nat \<Rightarrow> rng \<Rightarrow> 'a list \<times> rng" where
  "sample_loop pool m 0 g = ([], g)"
| "sample_loop pool m (Suc k) g =
     (case randbelow m g of (j, g') \<Rightarrow>
        (case sample_loop (pool[j := pool ! (m - 1)]) (m - 1) k g' of (rest, g'') \<Rightarrow>
           (pool ! j # rest, g'')))"

definition py_sample :: "'a list \<Rightarrow> nat \<Rightarrow> rng \<Rightarrow> 'a list \<times> rng" where
  "py_sample population k g = sample_loop population (length population) k g"

definition unit_source :: "rng \<Rightarrow> bool" where
  "unit_source g \<longleftrightarrow> (\<forall>u\<in>sset (unit_draws g). 0 \<le> u \<and> u < 1)"

subsection \<open>Noise injection\<close>

text \<open>
  The three experiment scripts perturb a copy of \<open>true_distances\<close> in the same way and differ
  only in the arguments of \<open>random.uniform\<close>: \<open>(0, 5)\<close> in \<open>simulate_error\<close>
  (UWB_error_test_boxplot.py), \<open>(0, noise_level)\<close> in \<open>simulate_and_plot\<close>
  (UWB_errors_on_map.py) and \<open>(-noise, noise)\<close> in \<open>simulate_errors\<close> (UWB_error_test_line.py).
  \<open>inject lo hi\<close> is that block with the two arguments as parameters. \<open>perturb\<close> is the loop
  \<open>for i in indices: noisy[i] += random.uniform(lo, hi)\<close>, \<open>add_all\<close> the comprehension
  \<open>[d + random.uniform(lo, hi) for d in true_distances]\<close>. Any other value of \<open>case\<close> adds
  no noise.
\<close>

fun perturb :: "real \<Rightarrow> real \<Rightarrow> nat list \<Rightarrow> real list \<Rightarrow> rng \<Rightarrow> real list \<times> rng" where
  "perturb lo hi [] noisy g = (noisy, g)"
| "perturb lo hi (i # indices) noisy g =
     (case py_uniform lo hi g of (v, g') \<Rightarrow> perturb lo hi indices (noisy[i := noisy ! i + v]) g')"

fun add_all :: "real \<Rightarrow> real \<Rightarrow> real list \<Rightarrow> rng \<Rightarrow> real list \<times> rng" where
  "add_all lo hi [] g = ([], g)"
| "add_all lo hi (d # ds) g =
     (case py_uniform lo hi g of (v, g') \<Rightarrow>
        (case add_all lo hi ds g' of (r, g'') \<Rightarrow> ((d + v) # r, g'')))"

definition inject :: "real \<Rightarrow> real \<Rightarrow> int \<Rightarrow> real list \<Rightarrow> rng \<Rightarrow> real list \<times> rng" where
  "inject lo hi cas td g =
     (if cas = 1 then (case py_choice [0, 1, 2] g of (i, g') \<Rightarrow> perturb lo hi [i] td g')
      else if cas = 2 then
        (case py_sample [0, 1, 2] 2 g of (indices, g') \<Rightarrow> perturb lo hi indices td g')
      else if cas = 3 then add_all lo hi td g
      else (td, g))"



text \<open>A concrete source for evaluation: integers 0, 1, 2, ... and the constant 1/2.\<close>

definition rng0 :: rng where
  "rng0 = \<lparr>int_draws = siterate Suc 0, unit_draws = sconst (1 / 2)\<rparr>"

subsection \<open>The Monte-Carlo harness\<close>

text \<open>
  One trial (the \<open>try\<close> block of both harnesses): the solver on the three anchors with the
  noisy distances, then \<open>error = np.linalg.norm(pos - true_pos)\<close>; a ValueError of the
  solver is the failed trial, which \<open>except ValueError: continue\<close> skips. The globals
  \<open>anchors\<close> and \<open>true_pos\<close> are parameters here.
\<close>

definition trial_error :: "point \<times> point \<times> point \<Rightarrow> point \<Rightarrow> real list \<Rightarrow> error + real" where
  "trial_error anchs tpos noisy =
     (case anchs of (a1, a2, a3) \<Rightarrow>
        (case trilateration a1 (noisy ! 0) a2 (noisy ! 1) a3 (noisy ! 2) of
           Inl e \<Rightarrow> Inl e
         | Inr pos \<Rightarrow> Inr (norm2 (sub pos tpos))))"

text \<open>
  \<open>for _ in range(trials)\<close> with the list \<open>errors\<close> as accumulator; \<open>simulate_error\<close>
  (UWB_error_test_boxplot.py) runs it with \<open>uniform(0, 5)\<close> and returns \<open>errors\<close>.
\<close>

fun trials_loop ::
  "real \<Rightarrow> real \<Rightarrow> point \<times> point \<times> point \<Rightarrow> point \<Rightarrow> int \<Rightarrow> nat \<Rightarrow> real list \<Rightarrow> rng
     \<Rightarrow> real list \<times> rng" where
  "trials_loop lo hi anchs tpos cas 0 errors g = (errors, g)"
| "trials_loop lo hi anchs tpos cas (Suc n) errors g =
     (case inject lo hi cas (true_distances anchs tpos) g of (noisy, g') \<Rightarrow>
        (case trial_error anchs tpos noisy of
           Inr e \<Rightarrow> trials_loop lo hi anchs tpos cas n (errors @ [e]) g'
         | Inl _ \<Rightarrow> trials_loop lo hi anchs tpos cas n errors g'))"

definition simulate_error :: "point \<times> point \<times> point \<Rightarrow> point \<Rightarrow> int \<Rightarrow> int \<Rightarrow> rng \<Rightarrow> real list" where
  "simulate_error anchs tpos cas trials g = fst (trials_loop 0 5 anchs tpos cas (nat trials) [] g)"

text \<open>
  \<open>simulate_errors\<close> (UWB_error_test_line.py): for each noise level the trial loop with
  \<open>uniform(-noise, noise)\<close>, then
  \<open>mean_errors.append(np.mean(errors) if errors else np.nan)\<close>.
\<close>

datatype mean_error = Mean real | NaN

definition mean_or_nan :: "real list \<Rightarrow> mean_error" where
  "mean_or_nan errors =
     (if errors \<noteq> [] then Mean (sum_list errors / real (length errors)) else NaN)"

fun levels_loop ::
  "point \<times> point \<times> point \<Rightarrow> point \<Rightarrow> real list \<Rightarrow> int \<Rightarrow> int \<Rightarrow> mean_error list \<Rightarrow> rng
     \<Rightarrow> mean_error list \<times> rng" where
  "levels_loop anchs tpos [] cas trials mean_errors g = (mean_errors, g)"
| "levels_loop anchs tpos (noise # rest) cas trials mean_errors g =
     (case trials_loop (- noise) noise anchs tpos cas (nat trials) [] g of (errors, g') \<Rightarrow>
        levels_loop anchs tpos rest cas trials (mean_errors @ [mean_or_nan errors]) g')"

definition simulate_errors ::
  "point \<times> point \<times> point \<Rightarrow> point \<Rightarrow> real list \<Rightarrow> int \<Rightarrow> int \<Rightarrow> rng \<Rightarrow> mean_error list" where
  "simulate_errors anchs tpos noise_levels cas trials g =
     fst (levels_loop anchs tpos noise_levels cas trials [] g)"

text \<open>
  For the statements: the outcome of every trial in trial order, the successful errors among
  them, the state of the random source when level \<open>k\<close> of a sweep starts, and the successful
  errors of that level.
\<close>

fun trial_outcomes ::
  "real \<Rightarrow> real \<Rightarrow> point \<times> point \<times> point \<Rightarrow> point \<Rightarrow> int \<Rightarrow> nat \<Rightarrow> rng \<Rightarrow> (error + real) list" where
  "trial_outcomes lo hi anchs tpos cas 0 g = []"
| "trial_outcomes lo hi anchs tpos cas (Suc n) g =
     (case inject lo hi cas (true_distances anchs tpos) g of (noisy, g') \<Rightarrow>
        trial_error anchs tpos noisy # trial_outcomes lo hi anchs tpos cas n g')"

fun successes :: "(error + real) list \<Rightarrow> real list" where
  "successes [] = []"
| "successes (Inr e # rs) = e # successes rs"
| "successes (Inl _ # rs) = successes rs"

fun level_rng ::
  "point \<times> point \<times> point \<Rightarrow> point \<Rightarrow> real list \<Rightarrow> int \<Rightarrow> int \<Rightarrow> nat \<Rightarrow> rng \<Rightarrow> rng" where
  "level_rng anchs tpos noise_levels cas trials 0 g = g"
| "level_rng anchs tpos [] cas trials (Suc k) g = g"
| "level_rng anchs tpos (noise # rest) cas trials (Suc k) g =
     level_rng anchs tpos rest cas trials k
       (snd (trials_loop (- noise) noise anchs tpos cas (nat trials) [] g))"

definition level_errors ::
  "point \<times> point \<times> point \<Rightarrow> point \<Rightarrow> real list \<Rightarrow> int \<Rightarrow> int \<Rightarrow> nat \<Rightarrow> rng \<Rightarrow> real list" where
  "level_errors anchs tpos noise_levels cas trials k g =
     successes (trial_outcomes (- (noise_levels ! k)) (noise_levels ! k) anchs tpos cas (nat trials)
       (level_rng anchs tpos noise_levels cas trials k g))"

subsection \<open>The interactive anchor manager\<close>

text \<open>
  uwb3anchorstest.py keeps the anchor set in module-level lists that its Tk and matplotlib
  callbacks mutate. The state below holds the globals the callbacks read and write:
  \<open>anchors\<close> and \<open>distances\<close> (here \<open>anchor_list\<close> and \<open>distance_list\<close>), the entry widgets
  \<open>distance_entries\<close>, \<open>selected_index\<close> and the text of \<open>result_label\<close>. An entry is
  represented by what \<open>float(entry.get())\<close> yields: \<open>Some v\<close>, or \<open>None\<close> when the text does not
  parse and \<open>float\<close> raises ValueError. The label texts are constructors; plot artists are
  not modelled. A callback returns the state it leaves behind, also when an exception
  escapes it (the event loop reports the exception and goes on).
\<close>

datatype label =
    Initial_label
  | Need_at_least_3
  | Max_10_allowed
  | Need_minimum_3
  | Estimated point
  | Error_text error

record gui =
  anchor_list :: "point list"
  distance_list :: "real list"
  distance_entries :: "real option list"
  selected_index :: "nat option"
  result_label :: label

datatype mouse = Mouse (inaxes: bool) (xdata: real) (ydata: real)

text \<open>
  \<open>redraw_anchors\<close> rebuilds one entry per pair of \<open>zip(anchors, distances)\<close>, holding
  \<open>str(d)\<close>, which \<open>float\<close> reads back as \<open>d\<close>.
\<close>

definition redraw_anchors :: "gui \<Rightarrow> gui" where
  "redraw_anchors st =
     st\<lparr>distance_entries := map (\<lambda>(a, d). Some d) (zip (anchor_list st) (distance_list st))\<rparr>"

text \<open>
  \<open>update_position\<close>: the loop \<open>for i, entry in enumerate(distance_entries):
  distances[i] = float(entry.get())\<close> (\<open>read_entries\<close>; what it has written stays written
  when it raises), the selection of the three closest anchors, the solver, and the label.
  Every exception of the \<open>try\<close> block ends in \<open>result_label.config(text=str(e))\<close>.
\<close>

fun read_entries :: "real option list \<Rightarrow> nat \<Rightarrow> real list \<Rightarrow> real list \<times> error option" where
  "read_entries [] i ds = (ds, None)"
| "read_entries (None # entries) i ds = (ds, Some ValueError)"
| "read_entries (Some v # entries) i ds =
     (if i < length ds then read_entries entries (Suc i) (ds[i := v])
      else (ds, Some IndexError))"

definition update_position :: "gui \<Rightarrow> gui" where
  "update_position st =
     (if length (anchor_list st) < 3 then st\<lparr>result_label := Need_at_least_3\<rparr>
      else
        (case read_entries (distance_entries st) 0 (distance_list st) of
           (ds, Some e) \<Rightarrow> st\<lparr>distance_list := ds, result_label := Error_text e\<rparr>
         | (ds, None) \<Rightarrow>
             (let st' = st\<lparr>distance_list := ds\<rparr>;
                  di = d_index ds
              in if length di < 3 \<or> \<not> (\<forall>k<3. di ! k < length (anchor_list st))
                 then st'\<lparr>result_label := Error_text IndexError\<rparr>
                 else
                   (case trilateration_3anchors
                           (anchor_list st ! (di ! 0)) (ds ! (di ! 0))
                           (anchor_list st ! (di ! 1)) (ds ! (di ! 1))
                           (anchor_list st ! (di ! 2)) (ds ! (di ! 2)) of
                      Inl e \<Rightarrow> st'\<lparr>result_label := Error_text e\<rparr>
                    | Inr pos \<Rightarrow> st'\<lparr>result_label := Estimated pos\<rparr>))))"

text \<open>
  \<open>add_anchor\<close> takes the two values of \<open>random.uniform(-10, 10)\<close> as arguments. In
  \<open>remove_anchor\<close>, \<open>distances.pop()\<close> on an empty list raises after \<open>anchors.pop()\<close> has run.
\<close>

definition add_anchor :: "real \<Rightarrow> real \<Rightarrow> gui \<Rightarrow> gui" where
  "add_anchor x y st =
     (if length (anchor_list st) \<ge> 10 then st\<lparr>result_label := Max_10_allowed\<rparr>
      else redraw_anchors
             (st\<lparr>anchor_list := anchor_list st @ [(x, y)],
                 distance_list := distance_list st @ [5]\<rparr>))"

definition remove_anchor :: "gui \<Rightarrow> gui" where
  "remove_anchor st =
     (if length (anchor_list st) \<le> 3 then st\<lparr>result_label := Need_minimum_3\<rparr>
      else if distance_list st = [] then st\<lparr>anchor_list := butlast (anchor_list st)\<rparr>
      else redraw_anchors
             (st\<lparr>anchor_list := butlast (anchor_list st),
                 distance_list := butlast (distance_list st)\<rparr>))"

text \<open>
  The mouse callbacks. \<open>on_press\<close> selects the first anchor within 0.5 of the click;
  \<open>on_motion\<close> moves the selected anchor, then redraws and recomputes. An index that is out
  of range raises IndexError in \<open>anchors[selected_index]\<close> before anything is written.
\<close>

definition on_press :: "mouse \<Rightarrow> gui \<Rightarrow> gui" where
  "on_press event st =
     (if \<not> inaxes event then st
      else st\<lparr>selected_index :=
             (case filter (\<lambda>i. norm2 (sub (xdata event, ydata event) (anchor_list st ! i)) < 0.5)
                     [0..<length (anchor_list st)] of
                [] \<Rightarrow> None
              | i # _ \<Rightarrow> Some i)\<rparr>)"

definition on_release :: "mouse \<Rightarrow> gui \<Rightarrow> gui" where
  "on_release event st = st\<lparr>selected_index := None\<rparr>"

definition on_motion :: "mouse \<Rightarrow> gui \<Rightarrow> gui" where
  "on_motion event st =
     (case selected_index st of
        None \<Rightarrow> st
      | Some i \<Rightarrow>
          if \<not> inaxes event then st
          else if i \<ge> length (anchor_list st) then st
          else update_position
                 (redraw_anchors
                    (st\<lparr>anchor_list := (anchor_list st)[i := (xdata event, ydata event)]\<rparr>)))"

text \<open>
  The events of a session: the three buttons, a key release in the \<open>i\<close>-th entry (which
  leaves the given content there and calls \<open>update_position\<close>), and the mouse. The script
  calls \<open>redraw_anchors()\<close> and \<open>update_position()\<close> once before the event loop starts.
\<close>

datatype event =
    Add_anchor real real
  | Remove_anchor
  | Find_position
  | Key_release nat "real option"
  | Button_press mouse
  | Button_release mouse
  | Motion mouse

fun handle :: "event \<Rightarrow> gui \<Rightarrow> gui" where
  "handle (Add_anchor x y) st = add_anchor x y st"
| "handle Remove_anchor st = remove_anchor st"
| "handle Find_position st = update_position st"
| "handle (Key_release i content) st =
     (if i < length (distance_entries st)
      then update_position (st\<lparr>distance_entries := (distance_entries st)[i := content]\<rparr>)
      else st)"
| "handle (Button_press m) st = on_press m st"
| "handle (Button_release m) st = on_release m st"
| "handle (Motion m) st = on_motion m st"

definition initial_state :: gui where
  "initial_state =
     update_position (redraw_anchors
       \<lparr>anchor_list = [(6, 7.5), (9, - 3), (5, 7.5)],
        distance_list = [7.0, 5.0, 8.0],
        distance_entries = [],
        selected_index = None,
        result_label = Initial_label\<rparr>)"

definition run :: "event list \<Rightarrow> gui \<Rightarrow> gui" where
  "run events st = fold handle events st"

definition anchor_inv :: "gui \<Rightarrow> bool" where
  "anchor_inv st \<longleftrightarrow>
     length (anchor_list st) = length (distance_list st)
     \<and> 3 \<le> length (anchor_list st) \<and> length (anchor_list st) \<le> 10"

subsection \<open>Solver: lemmas\<close>


lemma denominator_collinear3:
  "2 * (x2 - x1) * (2 * (y3 - y1)) - 2 * (y2 - y1) * (2 * (x3 - x1)) = (0::real)
     \<longleftrightarrow> collinear3 (x1, y1) (x2, y2) (x3, y3)"
proof -
  have "2 * (x2 - x1) * (2 * (y3 - y1)) - 2 * (y2 - y1) * (2 * (x3 - x1))
          = 4 * ((x2 - x1) * (y3 - y1) - (y2 - y1) * (x3 - x1))"
    by (simp add: algebra_simps)
  then show ?thesis by (simp add: collinear3_def)
qed

lemma trilateration_Inl_iff:
  "trilateration p1 d1 p2 d2 p3 d3 = Inl ValueError \<longleftrightarrow> collinear3 p1 p2 p3"
proof -
  obtain x1 y1 x2 y2 x3 y3 where p: "p1 = (x1, y1)" "p2 = (x2, y2)" "p3 = (x3, y3)"
    by (metis surj_pair)
  show ?thesis
    unfolding p trilateration_def Let_def prod.case
    using denominator_collinear3 [of x2 x1 y3 y1 y2 x3] by (simp del: mult_eq_0_iff)
qed

lemma norm2_sq: "(norm2 v)\<^sup>2 = (fst v)\<^sup>2 + (snd v)\<^sup>2"
  by (simp add: norm2_def)

lemma norm2_nonneg: "0 \<le> norm2 v"
  by (simp add: norm2_def)


lemma isl_trilateration: "isl (trilateration p1 d1 p2 d2 p3 d3) \<longleftrightarrow> collinear3 p1 p2 p3"
proof -
  have "isl (trilateration p1 d1 p2 d2 p3 d3) \<longleftrightarrow> trilateration p1 d1 p2 d2 p3 d3 = Inl ValueError"
    by (auto simp: trilateration_def Let_def split: prod.splits)
  then show ?thesis by (simp add: trilateration_Inl_iff)
qed

lemma cramer_solution:
  fixes A B C D E F gx gy :: real
  assumes "C = A * gx + B * gy" and "F = D * gx + E * gy" and "A * E - B * D \<noteq> 0"
  shows "(C * E - B * F) / (A * E - B * D) = gx" and "(A * F - C * D) / (A * E - B * D) = gy"
proof -
  have "C * E - B * F = gx * (A * E - B * D)" using assms(1,2) by (simp add: algebra_simps)
  then show "(C * E - B * F) / (A * E - B * D) = gx" using assms(3) by simp
  have "A * F - C * D = gy * (A * E - B * D)" using assms(1,2) by (simp add: algebra_simps)
  then show "(A * F - C * D) / (A * E - B * D) = gy" using assms(3) by simp
qed

lemma circle_difference:
  fixes gx gy x1 y1 x2 y2 :: real
  shows "((gx - x1)\<^sup>2 + (gy - y1)\<^sup>2) - ((gx - x2)\<^sup>2 + (gy - y2)\<^sup>2) - x1\<^sup>2 + x2\<^sup>2 - y1\<^sup>2 + y2\<^sup>2
           = 2 * (x2 - x1) * gx + 2 * (y2 - y1) * gy"
  by (simp add: power2_eq_square algebra_simps)

lemma trilateration_exact:
  assumes "\<not> collinear3 p1 p2 p3"
  shows "trilateration p1 (norm2 (sub g p1)) p2 (norm2 (sub g p2)) p3 (norm2 (sub g p3)) = Inr g"
proof -
  obtain x1 y1 x2 y2 x3 y3 gx gy where
    p: "p1 = (x1, y1)" "p2 = (x2, y2)" "p3 = (x3, y3)" "g = (gx, gy)"
    by (metis surj_pair)
  let ?A = "2 * (x2 - x1)" and ?B = "2 * (y2 - y1)"
  let ?D = "2 * (x3 - x1)" and ?E = "2 * (y3 - y1)"
  let ?C = "(norm2 (sub g p1))\<^sup>2 - (norm2 (sub g p2))\<^sup>2 - x1\<^sup>2 + x2\<^sup>2 - y1\<^sup>2 + y2\<^sup>2"
  let ?F = "(norm2 (sub g p1))\<^sup>2 - (norm2 (sub g p3))\<^sup>2 - x1\<^sup>2 + x3\<^sup>2 - y1\<^sup>2 + y3\<^sup>2"
  have dn: "?A * ?E - ?B * ?D \<noteq> 0"
    using assms denominator_collinear3 [of x2 x1 y3 y1 y2 x3] by (simp add: p del: mult_eq_0_iff)
  have C: "?C = ?A * gx + ?B * gy"
    unfolding norm2_sq p sub_def fst_conv snd_conv by (rule circle_difference)
  have F: "?F = ?D * gx + ?E * gy"
    unfolding norm2_sq p sub_def fst_conv snd_conv by (rule circle_difference)
  have x: "(?C * ?E - ?B * ?F) / (?A * ?E - ?B * ?D) = gx"
    and y: "(?A * ?F - ?C * ?D) / (?A * ?E - ?B * ?D) = gy"
    using cramer_solution [OF C F dn] by blast+
  have "trilateration p1 (norm2 (sub g p1)) p2 (norm2 (sub g p2)) p3 (norm2 (sub g p3))
          = Inr ((?C * ?E - ?B * ?F) / (?A * ?E - ?B * ?D), (?A * ?F - ?C * ?D) / (?A * ?E - ?B * ?D))"
    using dn unfolding trilateration_def Let_def p(1,2,3) prod.case by (simp only: if_False)
  then show ?thesis using x y p(4) by simp
qed

lemma anchors0_not_collinear:
  "\<not> collinear3 (fst anchors0) (fst (snd anchors0)) (snd (snd anchors0))"
  by (simp add: anchors0_def collinear3_def)

subsection \<open>Solver: claims\<close>







subsection \<open>Anchor selection: lemmas and claims\<close>

lemma lex_before_key_le: "lex_before f g a b \<Longrightarrow> f a \<le> f b"
  by (auto simp: lex_before_def)

lemma sorted_wrt_insort_key_lex:
  assumes "sorted_wrt (lex_before f g) ys" and "\<forall>y\<in>set ys. g x < g y"
  shows "sorted_wrt (lex_before f g) (insort_key f x ys)"
  using assms
proof (induction ys)
  case Nil
  then show ?case by simp
next
  case (Cons y ys)
  show ?case
  proof (cases "f x \<le> f y")
    case True
    have "lex_before f g x z" if "z \<in> set (y # ys)" for z
    proof -
      have "f y \<le> f z" using that Cons.prems(1) by (auto dest: lex_before_key_le)
      with True have "f x \<le> f z" by simp
      moreover have "g x < g z" using that Cons.prems(2) by auto
      ultimately show ?thesis by (auto simp: lex_before_def)
    qed
    with True Cons.prems(1) show ?thesis by simp
  next
    case False
    then have yx: "lex_before f g y x" by (simp add: lex_before_def)
    have ih: "sorted_wrt (lex_before f g) (insort_key f x ys)"
      using Cons by simp
    have "\<forall>z\<in>set (insort_key f x ys). lex_before f g y z"
      using yx Cons.prems(1) by (simp add: set_insort_key)
    with False ih show ?thesis by simp
  qed
qed

lemma sorted_wrt_sort_key_lex:
  "sorted_wrt (\<lambda>a b. g a < g b) xs \<Longrightarrow> sorted_wrt (lex_before f g) (sort_key f xs)"
proof (induction xs)
  case Nil
  then show ?case by simp
next
  case (Cons x xs)
  then have "sorted_wrt (lex_before f g) (sort_key f xs)" and "\<forall>y\<in>set (sort_key f xs). g x < g y"
    by simp_all
  then have "sorted_wrt (lex_before f g) (insort_key f x (sort_key f xs))"
    by (rule sorted_wrt_insort_key_lex)
  then show ?case by simp
qed

lemma sorted_wrt_take_drop:
  assumes "sorted_wrt P xs" and "a \<in> set (take n xs)" and "b \<in> set (drop n xs)"
  shows "P a b"
proof -
  have "sorted_wrt P (take n xs @ drop n xs)" using assms(1) by simp
  then show ?thesis using assms(2,3) unfolding sorted_wrt_append by blast
qed

lemma sorted_wrt_take': "sorted_wrt P xs \<Longrightarrow> sorted_wrt P (take n xs)"
proof -
  assume "sorted_wrt P xs"
  then have "sorted_wrt P (take n xs @ drop n xs)" by simp
  then show ?thesis unfolding sorted_wrt_append by blast
qed

lemma upt_sorted_wrt_id: "sorted_wrt (\<lambda>a b. id a < id b) [0..<n]"
  by (simp add: sorted_wrt_iff_nth_less)


lemma d_index_sorted_lex:
  "sorted_wrt (lex_before (\<lambda>i. distances ! i) id) (sort_key (\<lambda>i. distances ! i) [0..<length distances])"
  by (rule sorted_wrt_sort_key_lex) (rule upt_sorted_wrt_id)

lemma d_index_properties:
  assumes "3 \<le> length distances"
  shows "length (d_index distances) = 3"
    and "distinct (d_index distances)"
    and "set (d_index distances) \<subseteq> {..<length distances}"
    and "sorted_wrt (lex_before (\<lambda>i. distances ! i) id) (d_index distances)"
    and "\<lbrakk>j < length distances; j \<notin> set (d_index distances); i \<in> set (d_index distances)\<rbrakk>
          \<Longrightarrow> lex_before (\<lambda>i. distances ! i) id i j"
proof -
  let ?L = "sort_key (\<lambda>i. distances ! i) [0..<length distances]"
  show "length (d_index distances) = 3" using assms by (simp add: d_index_def)
  show "distinct (d_index distances)" by (simp add: d_index_def)
  have "set (take 3 ?L) \<subseteq> set ?L" by (rule set_take_subset)
  then show "set (d_index distances) \<subseteq> {..<length distances}" by (auto simp: d_index_def)
  show "sorted_wrt (lex_before (\<lambda>i. distances ! i) id) (d_index distances)"
    unfolding d_index_def by (rule sorted_wrt_take' [OF d_index_sorted_lex])
  assume j: "j < length distances" "j \<notin> set (d_index distances)" and i: "i \<in> set (d_index distances)"
  have "j \<in> set (take 3 ?L @ drop 3 ?L)" using j(1) by simp
  then have "j \<in> set (drop 3 ?L)" using j(2) unfolding set_append d_index_def by blast
  then show "lex_before (\<lambda>i. distances ! i) id i j"
    using i sorted_wrt_take_drop [OF d_index_sorted_lex] unfolding d_index_def by blast
qed

lemma d_index_example: "d_index [10, 3, 7, 1, 20] = [3, 1, 2]"
  by (simp add: d_index_def upt_rec)

lemma enumerate_sorted_wrt_fst: "sorted_wrt (\<lambda>a b. fst a < fst b) (enumerate n xs)"
proof -
  have "sorted_wrt (<) (map fst (enumerate n xs))" by simp
  then show ?thesis unfolding sorted_wrt_map .
qed

lemma within_range_sorted_lex:
  "sorted_wrt (lex_before snd fst) (sort_key snd (within_range R distances))"
  unfolding within_range_def
  by (intro sorted_wrt_sort_key_lex sorted_wrt_filter enumerate_sorted_wrt_fst)

lemma set_within_range:
  "set (within_range R distances) = {(i, d). i < length distances \<and> d = distances ! i \<and> d \<le> R}"
  by (auto simp: within_range_def in_set_enumerate_eq)

lemma distinct_fst_within_range: "distinct (map fst (within_range R distances))"
proof -
  have "distinct (map fst (enumerate 0 distances))" by simp
  then show ?thesis unfolding within_range_def by (rule distinct_map_filter)
qed

lemma length_within_range:
  "length (within_range R distances) = card {i. i < length distances \<and> distances ! i \<le> R}"
proof -
  have "length (within_range R distances)
          = card {i. i < length (enumerate 0 distances) \<and> (case enumerate 0 distances ! i of (i, d) \<Rightarrow> d \<le> R)}"
    unfolding within_range_def by (rule length_filter_conv_card)
  also have "{i. i < length (enumerate 0 distances) \<and> (case enumerate 0 distances ! i of (i, d) \<Rightarrow> d \<le> R)}
          = {i. i < length distances \<and> distances ! i \<le> R}"
    by (auto simp: nth_enumerate_eq)
  finally show ?thesis .
qed

lemma closest_in_range_example: "closest_in_range 10 [12, 15, 20] = []"
  by (simp add: closest_in_range_def within_range_def enumerate_eq_zip upt_rec)


lemma le3_cases: "(n::nat) \<le> 3 \<Longrightarrow> n \<in> {0, 1, 2, 3}"
  by auto

lemma min3_eq: "min 3 (k::nat) = 3 \<longleftrightarrow> 3 \<le> k"
  by auto

lemma closest_valid_eq: "closest_valid distances = closest_in_range 10 distances"
  by (simp add: closest_valid_def closest_in_range_def within_10m_def)

lemma set_closest_in_range_subset:
  "set (closest_in_range R distances) \<subseteq> set (within_range R distances)"
proof -
  have "set (take 3 (sort_key snd (within_range R distances)))
          \<subseteq> set (sort_key snd (within_range R distances))"
    by (rule set_take_subset)
  then show ?thesis by (simp add: closest_in_range_def)
qed

lemma length_closest_in_range:
  "length (closest_in_range R distances)
     = min 3 (card {i. i < length distances \<and> distances ! i \<le> R})"
  by (simp add: closest_in_range_def length_within_range min.commute)

lemma distinct_fst_closest_in_range: "distinct (map fst (closest_in_range R distances))"
proof -
  let ?W = "within_range R distances"
  have "distinct ?W" and inj: "inj_on fst (set ?W)"
    using distinct_fst_within_range [of R distances] by (simp_all add: distinct_map)
  then have "distinct (sort_key snd ?W)" by simp
  moreover have "inj_on fst (set (sort_key snd ?W))" using inj by simp
  ultimately have "distinct (map fst (sort_key snd ?W))" by (simp add: distinct_map)
  then have "distinct (take 3 (map fst (sort_key snd ?W)))" by (rule distinct_take)
  then show ?thesis by (simp add: closest_in_range_def take_map)
qed

lemma sorted_snd_closest_in_range: "sorted (map snd (closest_in_range R distances))"
proof -
  have "sorted (map snd (sort_key snd (within_range R distances)))" by (rule sorted_sort_key)
  then have "sorted_wrt (\<le>) (take 3 (map snd (sort_key snd (within_range R distances))))"
    by (rule sorted_wrt_take')
  then show ?thesis by (simp add: closest_in_range_def take_map)
qed

lemma closest_in_range_lex:
  "sorted_wrt (lex_before snd fst) (closest_in_range R distances)"
  unfolding closest_in_range_def by (rule sorted_wrt_take' [OF within_range_sorted_lex])

lemma closest_in_range_others:
  assumes "j < length distances" and "distances ! j \<le> R"
    and "j \<notin> fst ` set (closest_in_range R distances)"
    and "p \<in> set (closest_in_range R distances)"
  shows "lex_before snd fst p (j, distances ! j)"
proof -
  let ?L = "sort_key snd (within_range R distances)"
  have "(j, distances ! j) \<in> set (within_range R distances)"
    using assms(1,2) by (simp add: set_within_range)
  then have "(j, distances ! j) \<in> set (take 3 ?L @ drop 3 ?L)" by simp
  moreover have "(j, distances ! j) \<notin> set (take 3 ?L)"
    using assms(3) unfolding closest_in_range_def by force
  ultimately have "(j, distances ! j) \<in> set (drop 3 ?L)" unfolding set_append by blast
  then show ?thesis
    using assms(4) sorted_wrt_take_drop [OF within_range_sorted_lex] unfolding closest_in_range_def
    by blast
qed

text \<open>
  Claim C5. For at least three distances, closest-3-overall returns three distinct valid
  indices, ordered by ascending distance with ties in index order, and every index left out
  comes after every chosen one in that order (so the chosen are the three smallest); the
  selection is a function of the distance list alone, which it leaves as it is. For the
  distances \<open>[10, 3, 7, 1, 20]\<close> it returns \<open>[3, 1, 2]\<close>, the anchors at distances 1, 3, 7.
\<close>

theorem d_index_closest3:
  "(3 \<le> length distances \<longrightarrow>
      length (d_index distances) = 3
    \<and> distinct (d_index distances)
    \<and> (\<forall>i\<in>set (d_index distances). i < length distances)
    \<and> sorted_wrt (\<lambda>i j. distances ! i < distances ! j \<or> (distances ! i = distances ! j \<and> i < j))
         (d_index distances)
    \<and> (\<forall>j<length distances. j \<notin> set (d_index distances) \<longrightarrow>
         (\<forall>i\<in>set (d_index distances).
            distances ! i < distances ! j \<or> (distances ! i = distances ! j \<and> i < j))))
   \<and> d_index [10, 3, 7, 1, 20] = [3, 1, 2]"
proof -
  have lb: "lex_before (\<lambda>i. distances ! i) id
              = (\<lambda>i j. distances ! i < distances ! j \<or> (distances ! i = distances ! j \<and> i < j))"
    by (simp add: lex_before_def fun_eq_iff)
  show ?thesis
    using d_index_properties [of distances] d_index_example unfolding lb by auto
qed

theorem d_index_closest3_witness:
  "3 \<le> length [5, 2, 2, 9 :: real] \<and> d_index [5, 2, 2, 9] = [1, 2, 0]
   \<and> length (d_index [5, 2, 2, 9]) = 3"
proof -
  have a: "d_index [5, 2, 2, 9] = [1, 2, 0]" by (simp add: d_index_def upt_rec)
  have "3 \<le> length [5, 2, 2, 9 :: real]" by simp
  with d_index_closest3 [of "[5, 2, 2, 9]"] a show ?thesis by blast
qed

text \<open>
  Claim C6 says that range-gated selection raises InsufficientAnchorsError when fewer than
  three anchors are within range. The code raises nothing: for the distances
  \<open>[12, 15, 20]\<close> it returns the empty selection, the count 0 and no colour.
\<close>

theorem update_circles_no_error_counterexample:
  "update_circles [12, 15, 20] = ([], 0, None)"
  by (simp add: update_circles_def closest_valid_def within_10m_def within_range_def
      enumerate_eq_zip upt_rec circle_color_def)

text \<open>
  Claim C6 as amended. Whenever fewer than three anchors have distance at most 10, the
  range-gated selection returns normally: the selection holds exactly the qualifying
  anchors, sorted by distance, the count is their number (0, 1 or 2), and the count picks
  the display tier (2 yellow, 1 red, 0 none).
\<close>

theorem update_circles_insufficient:
  "card {i. i < length distances \<and> distances ! i \<le> 10} < 3 \<longrightarrow>
     (case update_circles distances of (sel, cnt, color) \<Rightarrow>
        cnt = card {i. i < length distances \<and> distances ! i \<le> 10}
      \<and> length sel = cnt
      \<and> set sel = {(i, d). i < length distances \<and> d = distances ! i \<and> d \<le> 10}
      \<and> sorted (map snd sel)
      \<and> color = (if cnt = 2 then Some ''yellow'' else if cnt = 1 then Some ''red'' else None))"
proof
  let ?k = "card {i. i < length distances \<and> distances ! i \<le> 10}"
  let ?W = "within_range 10 distances"
  assume k: "?k < 3"
  then have lw: "length (sort_key snd ?W) \<le> 3" by (simp add: length_within_range)
  have cv: "closest_valid distances = sort_key snd ?W"
    unfolding closest_valid_def within_10m_def using lw by simp
  have len: "length (closest_valid distances) = ?k" by (simp add: cv length_within_range)
  have st: "set (closest_valid distances) = {(i, d). i < length distances \<and> d = distances ! i \<and> d \<le> 10}"
    by (simp add: cv set_within_range)
  have so: "sorted (map snd (closest_valid distances))"
    unfolding closest_valid_eq by (rule sorted_snd_closest_in_range)
  have col: "circle_color ?k = (if ?k = 2 then Some ''yellow'' else if ?k = 1 then Some ''red'' else None)"
    using k by (simp add: circle_color_def)
  show "case update_circles distances of (sel, cnt, color) \<Rightarrow>
        cnt = ?k \<and> length sel = cnt
      \<and> set sel = {(i, d). i < length distances \<and> d = distances ! i \<and> d \<le> 10}
      \<and> sorted (map snd sel)
      \<and> color = (if cnt = 2 then Some ''yellow'' else if cnt = 1 then Some ''red'' else None)"
    unfolding update_circles_def Let_def prod.case len using st so col by simp
qed

text \<open>
  Claim C7. For every distance list and range \<open>R\<close>, with \<open>k\<close> anchors at distance at most \<open>R\<close>,
  range-gated selection returns \<open>min 3 k\<close> entries (so 0, 1, 2 or 3), each a qualifying anchor
  index with its distance, the indices distinct, sorted by ascending distance, and every
  qualifying anchor left out is at least as far as every chosen one; the selection is a
  triple exactly when \<open>k\<close> is at least 3. \<open>update_circles\<close> is this selection at \<open>R = 10\<close> together
  with its length as the reported count.
\<close>

theorem update_circles_insufficient_witness:
  "card {i. i < length [3, 12, 4 :: real] \<and> [3, 12, 4 :: real] ! i \<le> 10} < 3
   \<and> update_circles [3, 12, 4] = ([(0, 3), (2, 4)], 2, Some ''yellow'')"
proof -
  have "card {i. i < length [3, 12, 4 :: real] \<and> [3, 12, 4 :: real] ! i \<le> 10}
          = length (within_range 10 [3, 12, 4])"
    by (rule length_within_range [symmetric])
  also have "\<dots> = 2" by (simp add: within_range_def enumerate_eq_zip upt_rec)
  finally have k: "card {i. i < length [3, 12, 4 :: real] \<and> [3, 12, 4 :: real] ! i \<le> 10} = 2" .
  have u: "update_circles [3, 12, 4] = ([(0, 3), (2, 4)], 2, Some ''yellow'')"
    by (simp add: update_circles_def closest_valid_def within_10m_def within_range_def
        enumerate_eq_zip upt_rec circle_color_def)
  have "card {i. i < length [3, 12, 4 :: real] \<and> [3, 12, 4 :: real] ! i \<le> 10} < 3"
    using k by simp
  with update_circles_insufficient [of "[3, 12, 4]"] u show ?thesis by blast
qed

theorem closest_in_range_correct:
  "(let sel = closest_in_range R distances;
        k = card {i. i < length distances \<and> distances ! i \<le> R}
    in length sel = min 3 k
     \<and> length sel \<in> {0, 1, 2, 3}
     \<and> (\<forall>p\<in>set sel. fst p < length distances \<and> snd p = distances ! fst p \<and> snd p \<le> R)
     \<and> distinct (map fst sel)
     \<and> sorted (map snd sel)
     \<and> (\<forall>j<length distances. distances ! j \<le> R \<longrightarrow> j \<notin> fst ` set sel \<longrightarrow>
          (\<forall>p\<in>set sel. snd p \<le> distances ! j))
     \<and> (length sel = 3 \<longleftrightarrow> 3 \<le> k))
   \<and> update_circles distances
       = (closest_in_range 10 distances, length (closest_in_range 10 distances),
          circle_color (length (closest_in_range 10 distances)))"
proof -
  let ?sel = "closest_in_range R distances"
  let ?k = "card {i. i < length distances \<and> distances ! i \<le> R}"
  have l: "length ?sel = min 3 ?k" by (rule length_closest_in_range)
  then have "length ?sel \<le> 3" by simp
  then have l4: "length ?sel \<in> {0, 1, 2, 3}" by (rule le3_cases)
  have m: "\<forall>p\<in>set ?sel. fst p < length distances \<and> snd p = distances ! fst p \<and> snd p \<le> R"
    using set_closest_in_range_subset [of R distances] by (auto simp: set_within_range)
  have o: "\<forall>j<length distances. distances ! j \<le> R \<longrightarrow> j \<notin> fst ` set ?sel \<longrightarrow>
          (\<forall>p\<in>set ?sel. snd p \<le> distances ! j)"
    using closest_in_range_others [of _ distances R] by (fastforce dest: lex_before_key_le)
  have t: "length ?sel = 3 \<longleftrightarrow> 3 \<le> ?k" unfolding l by (rule min3_eq)
  have u: "update_circles distances
       = (closest_in_range 10 distances, length (closest_in_range 10 distances),
          circle_color (length (closest_in_range 10 distances)))"
    by (simp add: update_circles_def closest_valid_eq Let_def)
  show ?thesis
    unfolding Let_def
    using l l4 m distinct_fst_closest_in_range [of R distances]
      sorted_snd_closest_in_range [of R distances] o t u by blast
qed

theorem closest_in_range_correct_witness:
  "closest_in_range 10 [12, 5, 20, 5, 7, 1] = [(5, 1), (1, 5), (3, 5)]
   \<and> length (closest_in_range 10 [12, 5, 20, 5, 7, 1])
       = min 3 (card {i. i < length [12, 5, 20, 5, 7, 1 :: real] \<and> [12, 5, 20, 5, 7, 1 :: real] ! i \<le> 10})
   \<and> sorted (map snd (closest_in_range 10 [12, 5, 20, 5, 7, 1]))"
proof -
  have a: "closest_in_range 10 [12, 5, 20, 5, 7, 1] = [(5, 1), (1, 5), (3, 5)]"
    by (simp add: closest_in_range_def within_range_def enumerate_eq_zip upt_rec)
  show ?thesis
    using a closest_in_range_correct [of 10 "[12, 5, 20, 5, 7, 1]"] unfolding Let_def by blast
qed

subsection \<open>Noise injection: lemmas and claims\<close>



lemma unit_source_randbelow: "unit_source (snd (randbelow n g)) = unit_source g"
  by (simp add: randbelow_def unit_source_def)









lemma length_perturb: "length (fst (perturb lo hi indices noisy g)) = length noisy"
  by (induction indices arbitrary: noisy g) (auto split: prod.splits)

lemma length_add_all: "length (fst (add_all lo hi td g)) = length td"
proof (induction td arbitrary: g)
  case Nil
  then show ?case by simp
next
  case (Cons d ds)
  obtain v g' where u: "py_uniform lo hi g = (v, g')" by (cases "py_uniform lo hi g")
  obtain r g'' where a: "add_all lo hi ds g' = (r, g'')" by (cases "add_all lo hi ds g'")
  have "length r = length ds" using Cons [of g'] a by simp
  then show ?case by (simp add: u a)
qed

lemma length_inject: "length (fst (inject lo hi cas td g)) = length td"
  by (simp add: inject_def length_perturb length_add_all split: prod.splits)






subsection \<open>Monte-Carlo harness: lemmas and claims\<close>

lemma trials_loop_acc:
  "trials_loop lo hi anchs tpos cas n errors g
     = (errors @ successes (trial_outcomes lo hi anchs tpos cas n g),
        snd (trials_loop lo hi anchs tpos cas n [] g))"
proof (induction n arbitrary: errors g)
  case 0
  then show ?case by simp
next
  case (Suc n)
  obtain noisy g' where i: "inject lo hi cas (true_distances anchs tpos) g = (noisy, g')"
    by (cases "inject lo hi cas (true_distances anchs tpos) g")
  show ?case
  proof (cases "trial_error anchs tpos noisy")
    case (Inl e)
    then show ?thesis using Suc [of errors g'] Suc [of "[]" g'] by (simp add: i)
  next
    case (Inr e)
    then show ?thesis using Suc [of "errors @ [e]" g'] Suc [of "[e]" g'] by (simp add: i)
  qed
qed

lemma fst_trials_loop:
  "fst (trials_loop lo hi anchs tpos cas n [] g) = successes (trial_outcomes lo hi anchs tpos cas n g)"
  by (metis trials_loop_acc append_Nil fst_conv)

lemma length_trial_outcomes: "length (trial_outcomes lo hi anchs tpos cas n g) = n"
  by (induction n arbitrary: g) (auto split: prod.splits)

lemma trial_outcomes_shape:
  "r \<in> set (trial_outcomes lo hi anchs tpos cas n g)
     \<Longrightarrow> \<exists>noisy. length noisy = 3 \<and> r = trial_error anchs tpos noisy"
proof (induction n arbitrary: g)
  case 0
  then show ?case by simp
next
  case (Suc n)
  obtain noisy g' where i: "inject lo hi cas (true_distances anchs tpos) g = (noisy, g')"
    by (cases "inject lo hi cas (true_distances anchs tpos) g")
  have "length (true_distances anchs tpos) = 3" by (simp add: true_distances_def split: prod.splits)
  then have "length noisy = 3" using length_inject [of lo hi cas "true_distances anchs tpos" g] i by simp
  then show ?case using Suc i by auto
qed

lemma trial_error_nonneg: "trial_error anchs tpos noisy = Inr e \<Longrightarrow> 0 \<le> e"
  by (auto simp: trial_error_def norm2_nonneg split: prod.splits sum.splits)

lemma isl_trial_error:
  "isl (trial_error (a1, a2, a3) tpos noisy) \<longleftrightarrow> collinear3 a1 a2 a3"
  using isl_trilateration [of a1 "noisy ! 0" a2 "noisy ! 1" a3 "noisy ! 2"]
  by (auto simp: trial_error_def split: sum.splits)

lemma trial_error_Inl: "trial_error anchs tpos noisy = Inl e \<Longrightarrow> e = ValueError"
  by (auto simp: trial_error_def trilateration_def Let_def split: prod.splits sum.splits if_splits)

lemma set_successes: "set (successes rs) = {e. Inr e \<in> set rs}"
  by (induction rs rule: successes.induct) auto

lemma successes_all_Inl: "\<forall>r\<in>set rs. isl r \<Longrightarrow> successes rs = []"
  by (induction rs rule: successes.induct) auto

lemma successes_no_Inl: "\<forall>r\<in>set rs. \<not> isl r \<Longrightarrow> length (successes rs) = length rs"
  by (induction rs rule: successes.induct) auto

lemma levels_loop_acc:
  "levels_loop anchs tpos levels cas trials acc g
     = (acc @ fst (levels_loop anchs tpos levels cas trials [] g),
        snd (levels_loop anchs tpos levels cas trials [] g))"
proof (induction levels arbitrary: acc g)
  case Nil
  then show ?case by simp
next
  case (Cons noise rest)
  obtain errors g' where t: "trials_loop (- noise) noise anchs tpos cas (nat trials) [] g = (errors, g')"
    by (cases "trials_loop (- noise) noise anchs tpos cas (nat trials) [] g")
  show ?case
    using Cons [of "acc @ [mean_or_nan errors]" g'] Cons [of "[mean_or_nan errors]" g']
    by (simp add: t)
qed

lemma levels_loop_Cons:
  "fst (levels_loop anchs tpos (noise # rest) cas trials [] g)
     = mean_or_nan (fst (trials_loop (- noise) noise anchs tpos cas (nat trials) [] g))
       # fst (levels_loop anchs tpos rest cas trials []
               (snd (trials_loop (- noise) noise anchs tpos cas (nat trials) [] g)))"
proof -
  obtain errors g' where t: "trials_loop (- noise) noise anchs tpos cas (nat trials) [] g = (errors, g')"
    by (cases "trials_loop (- noise) noise anchs tpos cas (nat trials) [] g")
  show ?thesis using levels_loop_acc [of anchs tpos rest cas trials "[mean_or_nan errors]" g']
    by (simp add: t)
qed

lemma length_levels_loop:
  "length (fst (levels_loop anchs tpos levels cas trials [] g)) = length levels"
proof (induction levels arbitrary: g)
  case Nil
  then show ?case by simp
next
  case (Cons noise rest)
  then show ?case unfolding levels_loop_Cons by simp
qed

lemma levels_loop_nth:
  "k < length levels \<Longrightarrow>
     fst (levels_loop anchs tpos levels cas trials [] g) ! k
       = mean_or_nan (level_errors anchs tpos levels cas trials k g)"
proof (induction levels arbitrary: k g)
  case Nil
  then show ?case by simp
next
  case (Cons noise rest)
  show ?case
  proof (cases k)
    case 0
    then show ?thesis
      unfolding levels_loop_Cons by (simp add: level_errors_def fst_trials_loop)
  next
    case (Suc j)
    then have "j < length rest" using Cons.prems by simp
    then show ?thesis
      unfolding levels_loop_Cons using Cons.IH [of j] Suc by (simp add: level_errors_def)
  qed
qed


lemma trial_error_exact:
  assumes "\<not> collinear3 a1 a2 a3"
  shows "trial_error (a1, a2, a3) tpos (true_distances (a1, a2, a3) tpos) = Inr 0"
proof -
  have "trilateration a1 (norm2 (sub tpos a1)) a2 (norm2 (sub tpos a2)) a3 (norm2 (sub tpos a3))
          = Inr tpos"
    by (rule trilateration_exact [OF assms])
  then show ?thesis by (simp add: trial_error_def true_distances_def norm2_def sub_def)
qed

lemma outcomes_collinear:
  assumes "collinear3 a1 a2 a3"
  shows "successes (trial_outcomes lo hi (a1, a2, a3) tpos cas n g) = []"
proof (rule successes_all_Inl, rule ballI)
  fix r assume "r \<in> set (trial_outcomes lo hi (a1, a2, a3) tpos cas n g)"
  then obtain noisy where "r = trial_error (a1, a2, a3) tpos noisy"
    using trial_outcomes_shape by blast
  then show "isl r" using assms by (simp add: isl_trial_error)
qed

lemma outcomes_not_collinear:
  assumes "\<not> collinear3 a1 a2 a3"
  shows "length (successes (trial_outcomes lo hi (a1, a2, a3) tpos cas n g)) = n"
proof -
  have "\<forall>r\<in>set (trial_outcomes lo hi (a1, a2, a3) tpos cas n g). \<not> isl r"
  proof
    fix r assume "r \<in> set (trial_outcomes lo hi (a1, a2, a3) tpos cas n g)"
    then obtain noisy where "r = trial_error (a1, a2, a3) tpos noisy"
      using trial_outcomes_shape by blast
    then show "\<not> isl r" using assms by (simp add: isl_trial_error)
  qed
  then show ?thesis by (simp add: successes_no_Inl length_trial_outcomes)
qed

lemma successes_nonneg:
  assumes "e \<in> set (successes (trial_outcomes lo hi anchs tpos cas n g))"
  shows "0 \<le> e"
proof -
  have "Inr e \<in> set (trial_outcomes lo hi anchs tpos cas n g)"
    using assms by (simp add: set_successes)
  then obtain noisy where "Inr e = trial_error anchs tpos noisy"
    using trial_outcomes_shape by blast
  then show ?thesis using trial_error_nonneg [of anchs tpos noisy e] by simp
qed

text \<open>
  Claim C4. A failed solve never aborts the run: \<open>simulate_error\<close> goes through all
  \<open>trials\<close> trials (one outcome per trial) and returns exactly the errors of the successful
  ones in trial order, the failed ones dropped; every returned value is a non-negative real,
  the Euclidean norm of estimate minus ground truth. With collinear anchors every trial
  fails and the result is empty; otherwise every trial succeeds.
\<close>

theorem simulate_error_collects:
  "(let outcomes = trial_outcomes 0 5 (a1, a2, a3) tpos cas (nat trials) g;
        errors = simulate_error (a1, a2, a3) tpos cas trials g
    in length outcomes = nat trials
     \<and> errors = successes outcomes
     \<and> (\<forall>e\<in>set errors. 0 \<le> e)
     \<and> (\<forall>r\<in>set outcomes. \<exists>noisy. length noisy = 3 \<and> r = trial_error (a1, a2, a3) tpos noisy)
     \<and> (collinear3 a1 a2 a3 \<longrightarrow> errors = [])
     \<and> (\<not> collinear3 a1 a2 a3 \<longrightarrow> length errors = nat trials))
   \<and> trial_error (a1, a2, a3) tpos noisy
       = (case trilateration a1 (noisy ! 0) a2 (noisy ! 1) a3 (noisy ! 2) of
            Inl e \<Rightarrow> Inl e
          | Inr pos \<Rightarrow> Inr (norm2 (sub pos tpos)))"
proof -
  let ?o = "trial_outcomes 0 5 (a1, a2, a3) tpos cas (nat trials) g"
  have e: "simulate_error (a1, a2, a3) tpos cas trials g = successes ?o"
    by (simp add: simulate_error_def fst_trials_loop)
  have n: "\<forall>e\<in>set (successes ?o). 0 \<le> e" using successes_nonneg by blast
  have s: "\<forall>r\<in>set ?o. \<exists>noisy. length noisy = 3 \<and> r = trial_error (a1, a2, a3) tpos noisy"
    using trial_outcomes_shape by blast
  have t: "trial_error (a1, a2, a3) tpos noisy
       = (case trilateration a1 (noisy ! 0) a2 (noisy ! 1) a3 (noisy ! 2) of
            Inl e \<Rightarrow> Inl e
          | Inr pos \<Rightarrow> Inr (norm2 (sub pos tpos)))"
    by (simp add: trial_error_def)
  show ?thesis
    unfolding Let_def e
    using length_trial_outcomes [of 0 5 "(a1, a2, a3)" tpos cas "nat trials" g] n s t
      outcomes_collinear [of a1 a2 a3 0 5 tpos cas "nat trials" g]
      outcomes_not_collinear [of a1 a2 a3 0 5 tpos cas "nat trials" g]
    by blast
qed

theorem simulate_error_collects_witness:
  "collinear3 (0, 0) (1, 0) (2, 0)
   \<and> simulate_error ((0, 0), (1, 0), (2, 0)) (0, 2) 1 3 rng0 = []
   \<and> length (trial_outcomes 0 5 ((0, 0), (1, 0), (2, 0)) (0, 2) 1 (nat 3) rng0) = nat 3
   \<and> \<not> collinear3 (- 4.5, 0) (- 1.5, - 3) (1.5, 0)
   \<and> length (simulate_error ((- 4.5, 0), (- 1.5, - 3), (1.5, 0)) (0, 2) 2 4 rng0) = nat 4"
proof -
  have c: "collinear3 (0, 0) (1, 0) (2, 0)" by (simp add: collinear3_def)
  have nc: "\<not> collinear3 (- 4.5, 0) (- 1.5, - 3) (1.5, 0)" by (simp add: collinear3_def)
  show ?thesis
    using c nc
      simulate_error_collects [of "(0, 0)" "(1, 0)" "(2, 0)" "(0, 2)" 1 3 rng0 "[]"]
      simulate_error_collects [of "(- 4.5, 0)" "(- 1.5, - 3)" "(1.5, 0)" "(0, 2)" 2 4 rng0 "[]"]
    unfolding Let_def by blast
qed

lemma level_errors_empty:
  assumes "collinear3 a1 a2 a3 \<or> trials \<le> 0"
  shows "level_errors (a1, a2, a3) tpos levels cas trials k g = []"
  using assms
proof
  assume "collinear3 a1 a2 a3"
  then show ?thesis unfolding level_errors_def by (rule outcomes_collinear)
next
  assume "trials \<le> 0"
  then show ?thesis by (simp add: level_errors_def)
qed

text \<open>
  Claim C3. The sweep \<open>simulate_errors\<close> returns one result per magnitude, in the order the
  magnitudes were given: the result at position \<open>k\<close> is the mean of the successful trial
  errors of level \<open>k\<close>, and the sentinel NaN (which is not the number zero) when that level
  has no successful trial, as happens at every level for collinear anchors or a trial count
  of zero.
\<close>

theorem simulate_errors_per_level:
  "(let means = simulate_errors (a1, a2, a3) tpos noise_levels cas trials g
    in length means = length noise_levels
     \<and> (\<forall>k<length noise_levels.
          means ! k = mean_or_nan (level_errors (a1, a2, a3) tpos noise_levels cas trials k g))
     \<and> (collinear3 a1 a2 a3 \<or> trials \<le> 0 \<longrightarrow> means = replicate (length noise_levels) NaN))
   \<and> mean_or_nan [] = NaN
   \<and> (es \<noteq> [] \<longrightarrow> mean_or_nan es = Mean (sum_list es / real (length es)))
   \<and> NaN \<noteq> Mean 0"
proof -
  let ?m = "simulate_errors (a1, a2, a3) tpos noise_levels cas trials g"
  have l: "length ?m = length noise_levels"
    by (simp add: simulate_errors_def length_levels_loop)
  have n: "\<forall>k<length noise_levels.
          ?m ! k = mean_or_nan (level_errors (a1, a2, a3) tpos noise_levels cas trials k g)"
    by (simp add: simulate_errors_def levels_loop_nth)
  have r: "?m = replicate (length noise_levels) NaN" if "collinear3 a1 a2 a3 \<or> trials \<le> 0"
  proof (rule nth_equalityI)
    show "length ?m = length (replicate (length noise_levels) NaN)" using l by simp
    fix k assume "k < length ?m"
    then have k: "k < length noise_levels" using l by simp
    then have "?m ! k = mean_or_nan []" using n level_errors_empty [OF that] by simp
    then show "?m ! k = replicate (length noise_levels) NaN ! k"
      using k by (simp add: mean_or_nan_def)
  qed
  show ?thesis unfolding Let_def using l n r by (simp add: mean_or_nan_def)
qed

theorem simulate_errors_per_level_witness:
  "simulate_errors ((0, 0), (1, 0), (2, 0)) (0, 2) [0, 1 / 2, 1] 3 100 rng0 = [NaN, NaN, NaN]
   \<and> simulate_errors anchors0 true_pos0 [0, 5] 0 1 rng0 = [Mean 0, Mean 0]
   \<and> length (simulate_errors anchors0 true_pos0 [0, 5] 0 1 rng0) = length [0, 5 :: real]
   \<and> mean_or_nan [1, 3] = Mean 2"
proof -
  have c: "collinear3 (0, 0) (1, 0) (2, 0)" by (simp add: collinear3_def)
  have a: "simulate_errors ((0, 0), (1, 0), (2, 0)) (0, 2) [0, 1 / 2, 1] 3 100 rng0 = [NaN, NaN, NaN]"
    using c simulate_errors_per_level [of "(0, 0)" "(1, 0)" "(2, 0)" "(0, 2)" "[0, 1 / 2, 1]" 3 100 rng0 "[]"]
    unfolding Let_def by (simp add: numeral_3_eq_3)
  have t: "trial_error anchors0 true_pos0 (true_distances anchors0 true_pos0) = Inr 0"
    using trial_error_exact [OF anchors0_not_collinear, of true_pos0] by simp
  have b: "simulate_errors anchors0 true_pos0 [0, 5] 0 1 rng0 = [Mean 0, Mean 0]"
    by (simp add: simulate_errors_def inject_def t mean_or_nan_def)
  have m: "mean_or_nan [1, 3] = Mean 2"
    using simulate_errors_per_level [of a1 a2 a3 tpos nl cas trials g "[1, 3]"] by simp
  show ?thesis using a b m by simp
qed

subsection \<open>Anchor manager: lemmas and claims\<close>

lemma length_read_entries: "length (fst (read_entries entries i ds)) = length ds"
  by (induction entries i ds rule: read_entries.induct) auto

lemma read_entries_same:
  "i \<le> length ds \<Longrightarrow> read_entries (map Some (drop i ds)) i ds = (ds, None)"
proof (induction "length ds - i" arbitrary: i)
  case 0
  then show ?case by simp
next
  case (Suc n)
  then have i: "i < length ds" by simp
  have d: "drop i ds = ds ! i # drop (Suc i) ds" using i by (simp add: Cons_nth_drop_Suc)
  have "read_entries (map Some (drop (Suc i) ds)) (Suc i) ds = (ds, None)"
    using Suc(1) [of "Suc i"] Suc(2) i by simp
  then show ?case using i by (simp add: d)
qed

lemma anchor_list_redraw [simp]: "anchor_list (redraw_anchors st) = anchor_list st"
  and distance_list_redraw [simp]: "distance_list (redraw_anchors st) = distance_list st"
  by (simp_all add: redraw_anchors_def)

lemma anchor_list_update_position [simp]: "anchor_list (update_position st) = anchor_list st"
  by (simp add: update_position_def Let_def split: prod.splits option.splits sum.splits)

lemma length_distance_list_update_position [simp]:
  "length (distance_list (update_position st)) = length (distance_list st)"
proof -
  obtain ds e where r: "read_entries (distance_entries st) 0 (distance_list st) = (ds, e)"
    by (cases "read_entries (distance_entries st) 0 (distance_list st)")
  then have "length ds = length (distance_list st)"
    using length_read_entries [of "distance_entries st" 0 "distance_list st"] by simp
  then show ?thesis
    by (simp add: update_position_def Let_def r split: option.splits sum.splits)
qed

lemma update_position_after_redraw:
  assumes "length (anchor_list st) = length (distance_list st)"
  shows "distance_list (update_position (redraw_anchors st)) = distance_list st"
proof -
  have "map (\<lambda>(a, d). Some d) (zip (anchor_list st) (distance_list st))
          = map Some (map snd (zip (anchor_list st) (distance_list st)))"
    by (simp add: case_prod_unfold)
  also have "\<dots> = map Some (drop 0 (distance_list st))" using assms by simp
  finally have e: "distance_entries (redraw_anchors st) = map Some (drop 0 (distance_list st))"
    by (simp add: redraw_anchors_def)
  have r: "read_entries (distance_entries (redraw_anchors st)) 0 (distance_list st)
             = (distance_list st, None)"
    unfolding e by (rule read_entries_same) simp
  show ?thesis
    by (simp add: update_position_def [of "redraw_anchors st"] r Let_def split: sum.splits)
qed

lemma anchor_inv_update_position: "anchor_inv st \<Longrightarrow> anchor_inv (update_position st)"
  by (simp add: anchor_inv_def)

lemma anchor_inv_redraw: "anchor_inv st \<Longrightarrow> anchor_inv (redraw_anchors st)"
  by (simp add: anchor_inv_def)

lemma anchor_inv_add: "anchor_inv st \<Longrightarrow> anchor_inv (add_anchor x y st)"
  by (auto simp: anchor_inv_def add_anchor_def)

lemma anchor_inv_remove: "anchor_inv st \<Longrightarrow> anchor_inv (remove_anchor st)"
  by (auto simp: anchor_inv_def remove_anchor_def)

lemma anchor_inv_on_motion: "anchor_inv st \<Longrightarrow> anchor_inv (on_motion m st)"
  by (auto simp: anchor_inv_def on_motion_def split: option.splits)

lemma anchor_inv_handle:
  assumes "anchor_inv st"
  shows "anchor_inv (handle e st)"
proof (cases e)
  case (Add_anchor x y)
  then show ?thesis using assms by (simp add: anchor_inv_add)
next
  case Remove_anchor
  then show ?thesis using assms by (simp add: anchor_inv_remove)
next
  case Find_position
  then show ?thesis using assms by (simp add: anchor_inv_update_position)
next
  case (Key_release i content)
  have "anchor_inv (st\<lparr>distance_entries := (distance_entries st)[i := content]\<rparr>)"
    using assms by (simp add: anchor_inv_def)
  then show ?thesis using assms Key_release by (simp add: anchor_inv_update_position)
next
  case (Button_press m)
  then show ?thesis using assms by (simp add: anchor_inv_def on_press_def)
next
  case (Button_release m)
  then show ?thesis using assms by (simp add: anchor_inv_def on_release_def)
next
  case (Motion m)
  then show ?thesis using assms by (simp add: anchor_inv_on_motion)
qed

lemma anchor_inv_initial: "anchor_inv initial_state"
  by (simp add: initial_state_def anchor_inv_def)

lemma anchor_inv_run: "anchor_inv st \<Longrightarrow> anchor_inv (run events st)"
  unfolding run_def by (induction events arbitrary: st) (simp_all add: anchor_inv_handle)


lemma on_motion_frame:
  assumes "anchor_inv st"
  shows "length (anchor_list (on_motion m st)) = length (anchor_list st)"
    and "distance_list (on_motion m st) = distance_list st"
proof -
  have eq: "length (anchor_list st) = length (distance_list st)"
    using assms by (simp add: anchor_inv_def)
  show "length (anchor_list (on_motion m st)) = length (anchor_list st)"
    by (simp add: on_motion_def split: option.splits)
  have "distance_list (update_position (redraw_anchors (st\<lparr>anchor_list := (anchor_list st)[i := p]\<rparr>)))
          = distance_list st" for i p
    using update_position_after_redraw [of "st\<lparr>anchor_list := (anchor_list st)[i := p]\<rparr>"] eq
    by simp
  then show "distance_list (on_motion m st) = distance_list st"
    by (simp add: on_motion_def split: option.splits)
qed

lemma add_anchor_lists:
  "10 \<le> length (anchor_list st) \<Longrightarrow>
     anchor_list (add_anchor x y st) = anchor_list st
     \<and> distance_list (add_anchor x y st) = distance_list st"
  "length (anchor_list st) < 10 \<Longrightarrow>
     anchor_list (add_anchor x y st) = anchor_list st @ [(x, y)]
     \<and> distance_list (add_anchor x y st) = distance_list st @ [5]"
  by (simp_all add: add_anchor_def)

lemma remove_anchor_lists:
  "length (anchor_list st) \<le> 3 \<Longrightarrow>
     anchor_list (remove_anchor st) = anchor_list st
     \<and> distance_list (remove_anchor st) = distance_list st"
  "anchor_inv st \<and> 3 < length (anchor_list st) \<Longrightarrow>
     anchor_list (remove_anchor st) = butlast (anchor_list st)
     \<and> distance_list (remove_anchor st) = butlast (distance_list st)"
  by (auto simp: remove_anchor_def anchor_inv_def)

text \<open>
  Claim C10. \<open>add_anchor\<close>, \<open>remove_anchor\<close> and \<open>on_motion\<close> preserve the invariant that
  the anchor and distance lists have the same length, between 3 and 10; the invariant holds
  in the initial state and after every sequence of events. \<open>add_anchor\<close> changes neither
  list when there are already 10 anchors and otherwise appends one element to each;
  \<open>remove_anchor\<close> changes neither list when there are 3 anchors or fewer and otherwise drops
  the last element of each; \<open>on_motion\<close> keeps the number of anchors and the distances.
\<close>

theorem anchor_manager_invariant:
  "(anchor_inv st \<longrightarrow>
      anchor_inv (add_anchor x y st) \<and> anchor_inv (remove_anchor st) \<and> anchor_inv (on_motion m st)
    \<and> length (anchor_list (on_motion m st)) = length (anchor_list st)
    \<and> distance_list (on_motion m st) = distance_list st)
   \<and> anchor_inv initial_state
   \<and> anchor_inv (run events initial_state)
   \<and> (10 \<le> length (anchor_list st) \<longrightarrow>
        anchor_list (add_anchor x y st) = anchor_list st
        \<and> distance_list (add_anchor x y st) = distance_list st)
   \<and> (length (anchor_list st) < 10 \<longrightarrow>
        anchor_list (add_anchor x y st) = anchor_list st @ [(x, y)]
        \<and> distance_list (add_anchor x y st) = distance_list st @ [5])
   \<and> (length (anchor_list st) \<le> 3 \<longrightarrow>
        anchor_list (remove_anchor st) = anchor_list st
        \<and> distance_list (remove_anchor st) = distance_list st)
   \<and> (anchor_inv st \<and> 3 < length (anchor_list st) \<longrightarrow>
        anchor_list (remove_anchor st) = butlast (anchor_list st)
        \<and> distance_list (remove_anchor st) = butlast (distance_list st))"
  using anchor_inv_add [of st x y] anchor_inv_remove [of st] anchor_inv_on_motion [of st m]
    on_motion_frame [of st m] anchor_inv_initial anchor_inv_run [OF anchor_inv_initial, of events]
    add_anchor_lists [of st x y] remove_anchor_lists [of st]
  by blast

theorem anchor_manager_invariant_witness:
  "anchor_inv initial_state
   \<and> length (anchor_list initial_state) = 3
   \<and> anchor_inv (add_anchor 1 2 initial_state)
   \<and> anchor_list (add_anchor 1 2 initial_state) = anchor_list initial_state @ [(1, 2)]
   \<and> distance_list (add_anchor 1 2 initial_state) = distance_list initial_state @ [5]
   \<and> anchor_list (remove_anchor initial_state) = anchor_list initial_state
   \<and> anchor_inv (on_motion (Mouse True 0 0) (on_press (Mouse True 6 7.5) initial_state))
   \<and> anchor_inv (run (replicate 9 (Add_anchor 0 0) @ [Remove_anchor]) initial_state)
   \<and> length (anchor_list (run (replicate 9 (Add_anchor 0 0) @ [Remove_anchor]) initial_state)) = 9"
proof -
  have l: "length (anchor_list initial_state) = 3" by (simp add: initial_state_def)
  have i: "anchor_inv initial_state"
    using anchor_manager_invariant [of initial_state 1 2 "Mouse True 0 0" "[]"] by blast
  have p: "anchor_inv (on_press (Mouse True 6 7.5) initial_state)"
    using i by (simp add: anchor_inv_def on_press_def)
  have m: "anchor_inv (on_motion (Mouse True 0 0) (on_press (Mouse True 6 7.5) initial_state))"
    using p anchor_manager_invariant [of "on_press (Mouse True 6 7.5) initial_state" 1 2 "Mouse True 0 0" "[]"]
    by blast
  have r: "anchor_inv (run (replicate 9 (Add_anchor 0 0) @ [Remove_anchor]) initial_state)"
    using anchor_manager_invariant [of initial_state 1 2 "Mouse True 0 0"
        "replicate 9 (Add_anchor 0 0) @ [Remove_anchor]"] by blast
  have n: "length (anchor_list (run (replicate 9 (Add_anchor 0 0) @ [Remove_anchor]) initial_state)) = 9"
    by (simp add: run_def eval_nat_numeral add_anchor_def remove_anchor_def l)
  show ?thesis
    using l i m r n anchor_manager_invariant [of initial_state 1 2 "Mouse True 0 0" "[]"]
    by simp
qed

end
